theory Spec2Isabelle
  imports Complex_Main
begin

section \<open>Python values\<close>

text \<open>
  Events are JSON-like Python objects. A dictionary is kept as an association list in
  insertion order; Python dictionaries hold each key once, and a lookup reads the first
  entry for the key. Path keys are strings or integers (a \<open>bool\<close> key is the integer it
  equals). Floats are carried as rationals; no modelled function computes with them
  except the elapsed time of an evaluation.
\<close>

datatype key = KStr string | KInt int

datatype pyval =
    PNone
  | PBool bool
  | PInt int
  | PFloat rat
  | PStr string
  | PList "pyval list"
  | PDict "(key \<times> pyval) list"

type_synonym pydict = "(key \<times> pyval) list"

text \<open>\<open>key in d\<close>, \<open>d.get(key)\<close> and the keys of a dictionary as Python values.\<close>

definition dict_contains :: "pydict \<Rightarrow> key \<Rightarrow> bool" where
  "dict_contains kvs k = (map_of kvs k \<noteq> None)"

definition dict_get :: "pydict \<Rightarrow> key \<Rightarrow> pyval" where
  "dict_get kvs k = (case map_of kvs k of None \<Rightarrow> PNone | Some v \<Rightarrow> v)"

fun key_value :: "key \<Rightarrow> pyval" where
  "key_value (KStr s) = PStr s"
| "key_value (KInt i) = PInt i"

text \<open>
  Subscripting a list with an integer. An index from \<open>0\<close> up to the length reads from
  the front, one from \<open>-1\<close> down to minus the length reads from the back, and every
  other index raises \<open>IndexError\<close>.
\<close>

datatype lookup_error = IndexError | TypeError

definition list_getitem :: "pyval list \<Rightarrow> int \<Rightarrow> lookup_error + pyval" where
  "list_getitem xs i =
     (if 0 \<le> i \<and> i < int (length xs) then Inr (xs ! nat i)
      else if i < 0 \<and> - int (length xs) \<le> i then Inr (xs ! nat (int (length xs) + i))
      else Inl IndexError)"

section \<open>helpers.py: deep_get\<close>

text \<open>
  The loop of \<open>deep_get\<close> over the keys, with \<open>result\<close> as its state. The \<open>try\<close> around
  the list access catches \<open>IndexError\<close> and \<open>TypeError\<close>; any other error would leave
  the function.
\<close>

fun deep_get_loop :: "pyval \<Rightarrow> key list \<Rightarrow> pyval \<Rightarrow> lookup_error + pyval" where
  "deep_get_loop result [] dflt = Inr (if result \<noteq> PNone then result else dflt)"
| "deep_get_loop (PDict kvs) (k # keys) dflt =
     (let result = dict_get kvs k
      in if result = PNone then Inr dflt else deep_get_loop result keys dflt)"
| "deep_get_loop (PList xs) (KInt i # keys) dflt =
     (case list_getitem xs i of
        Inl e \<Rightarrow> (if e = IndexError \<or> e = TypeError then Inr dflt else Inl e)
      | Inr result \<Rightarrow>
          (if result = PNone then Inr dflt else deep_get_loop result keys dflt))"
| "deep_get_loop result (k # keys) dflt = Inr dflt"

definition deep_get :: "pyval \<Rightarrow> key list \<Rightarrow> pyval \<Rightarrow> lookup_error + pyval" where
  "deep_get event keys dflt = deep_get_loop event keys dflt"

text \<open>
  The specification's reading of a path: the node under one key is absent when the node
  is neither a mapping nor a sequence, when the mapping has no such key, or when the key
  is not an index in range of the sequence.
\<close>

fun step_fails :: "pyval \<Rightarrow> key \<Rightarrow> bool" where
  "step_fails (PDict kvs) k = (\<not> dict_contains kvs k)"
| "step_fails (PList xs) (KInt i) = (i < - int (length xs) \<or> int (length xs) \<le> i)"
| "step_fails (PList xs) (KStr s) = True"
| "step_fails v k = True"

fun child :: "pyval \<Rightarrow> key \<Rightarrow> pyval option" where
  "child (PDict kvs) k = map_of kvs k"
| "child (PList xs) (KInt i) =
     (if 0 \<le> i \<and> i < int (length xs) then Some (xs ! nat i)
      else if - int (length xs) \<le> i \<and> i < 0 then Some (xs ! nat (int (length xs) + i))
      else None)"
| "child v k = None"

fun path_resolve :: "pyval \<Rightarrow> key list \<Rightarrow> pyval option" where
  "path_resolve v [] = Some v"
| "path_resolve v (k # ks) =
     (case child v k of None \<Rightarrow> None | Some c \<Rightarrow> path_resolve c ks)"

section \<open>helpers.py: deep_walk\<close>

text \<open>
  The inner function \<open>_walk\<close>; \<open>return_val\<close> is the enclosing function's argument. The
  loop over a list extends \<open>results\<close> element by element.
\<close>

fun walk :: "string \<Rightarrow> pyval \<Rightarrow> key list \<Rightarrow> pyval list" where
  "walk return_val obj [] =
     (if return_val = ''key''
      then (case obj of PDict kvs \<Rightarrow> map (key_value \<circ> fst) kvs | _ \<Rightarrow> [])
      else (if obj \<noteq> PNone then [obj] else []))"
| "walk return_val (PDict kvs) (k # rest) =
     (case map_of kvs k of Some v \<Rightarrow> walk return_val v rest | None \<Rightarrow> [])"
| "walk return_val (PList xs) (k # rest) =
     foldl (\<lambda>results item. results @ walk return_val item (k # rest)) [] xs"
| "walk return_val obj (k # rest) = []"

definition deep_walk :: "pyval \<Rightarrow> key list \<Rightarrow> pyval \<Rightarrow> string \<Rightarrow> pyval" where
  "deep_walk event keys dflt return_val =
     (let results = walk return_val event keys
      in if results \<noteq> [] then PList results
         else (if dflt \<noteq> PNone then dflt else PList []))"

section \<open>engine.py: detection units and verdicts\<close>

text \<open>
  A unit's callables are Python functions of the event. One call either returns a value
  or raises an instance of \<open>Exception\<close> (a fault: the class name
  \<open>type(e).__name__\<close>, the message \<open>str(e)\<close> and the text
  \<open>traceback.format_exc()\<close> renders for it). An attribute that is not callable is a
  callable that raises \<open>TypeError\<close>. The callables are taken to return and to keep no
  state of their own, as the specification says of units.
\<close>

datatype fault = Fault (fault_type: string) (fault_msg: string) (fault_traceback: string)

type_synonym callable = "pyval \<Rightarrow> fault + pyval"

record DetectionResult =
  rule_id :: string
  rule_file :: string
  matched :: bool
  event :: pyval
  title :: pyval
  severity :: pyval
  description :: pyval
  reference :: pyval
  runbook :: pyval
  alert_context :: pyval
  dedup_string :: pyval
  error :: "string option"
  execution_time_ms :: rat

definition optional_str :: "string option \<Rightarrow> pyval" where
  "optional_str s = (case s of None \<Rightarrow> PNone | Some t \<Rightarrow> PStr t)"

definition to_dict :: "DetectionResult \<Rightarrow> pydict" where
  "to_dict self =
     [(KStr ''rule_id'', PStr (rule_id self)),
      (KStr ''rule_file'', PStr (rule_file self)),
      (KStr ''matched'', PBool (matched self)),
      (KStr ''title'', title self),
      (KStr ''severity'', severity self),
      (KStr ''description'', description self),
      (KStr ''reference'', reference self),
      (KStr ''runbook'', runbook self),
      (KStr ''alert_context'', alert_context self),
      (KStr ''dedup_string'', dedup_string self),
      (KStr ''error'', optional_str (error self)),
      (KStr ''execution_time_ms'', PFloat (execution_time_ms self)),
      (KStr ''event'', event self)]"

record Detection =
  det_rule_id :: string
  file_path :: string
  rule_func :: callable
  title_func :: "callable option"
  severity_func :: "callable option"
  description_func :: "callable option"
  reference_func :: "callable option"
  runbook_func :: "callable option"
  alert_context_func :: "callable option"
  dedup_func :: "callable option"
  log_types :: "string list"
  enabled :: bool
  tags :: "string list"

definition default_severity :: "Detection \<Rightarrow> pyval" where
  "default_severity self = PStr ''MEDIUM''"

text \<open>\<open>bool(x)\<close> on a Python value.\<close>

fun truthy :: "pyval \<Rightarrow> bool" where
  "truthy PNone = False"
| "truthy (PBool b) = b"
| "truthy (PInt i) = (i \<noteq> 0)"
| "truthy (PFloat r) = (r \<noteq> 0)"
| "truthy (PStr s) = (s \<noteq> [])"
| "truthy (PList xs) = (xs \<noteq> [])"
| "truthy (PDict kvs) = (kvs \<noteq> [])"

section \<open>engine.py: run_detection\<close>

text \<open>
  The world outside a call: how often the clock has been read, and a log of the unit
  callables invoked so far (the unit's id and which callable). The log is not in the
  source; it records the calls the source makes, in order, so that statements about
  which callables run can be made. The clock is a function from the number of earlier
  readings to the time read, in microseconds.
\<close>

datatype hook = Rule | Title | Severity | Description | Reference | Runbook | AlertContext | Dedup

record world =
  clock_reads :: nat
  invoked :: "(string \<times> hook) list"

type_synonym clock = "nat \<Rightarrow> int"

definition now :: "clock \<Rightarrow> world \<Rightarrow> int \<times> world" where
  "now clk w = (clk (clock_reads w), w\<lparr>clock_reads := Suc (clock_reads w)\<rparr>)"

definition call_hook :: "Detection \<Rightarrow> hook \<Rightarrow> callable \<Rightarrow> pyval \<Rightarrow> world \<Rightarrow> (fault + pyval) \<times> world" where
  "call_hook det h f ev w = (f ev, w\<lparr>invoked := invoked w @ [(det_rule_id det, h)]\<rparr>)"

text \<open>
  The body of the \<open>try\<close> block is a sequence of statements over the verdict under
  construction. A statement that raises stops the sequence; what it and the statements
  before it wrote to the verdict stays written.
\<close>

type_synonym rstate = "DetectionResult \<times> world"

type_synonym stmt = "rstate \<Rightarrow> fault option \<times> rstate"

fun run_stmts :: "stmt list \<Rightarrow> stmt" where
  "run_stmts [] s = (None, s)"
| "run_stmts (f # fs) s =
     (case f s of (Some e, s') \<Rightarrow> (Some e, s') | (None, s') \<Rightarrow> run_stmts fs s')"

text \<open>\<open>if detection.x_func: result.x = detection.x_func(event)\<close>\<close>

definition extract_field :: "Detection \<Rightarrow> pyval \<Rightarrow> hook \<Rightarrow> callable option \<Rightarrow>
    (pyval \<Rightarrow> DetectionResult \<Rightarrow> DetectionResult) \<Rightarrow> stmt" where
  "extract_field det ev h func store s =
     (case func of
        None \<Rightarrow> (None, s)
      | Some f \<Rightarrow>
          (case call_hook det h f ev (snd s) of
             (Inl e, w) \<Rightarrow> (Some e, (fst s, w))
           | (Inr v, w) \<Rightarrow> (None, (store v (fst s), w))))"

definition extract_severity :: "Detection \<Rightarrow> pyval \<Rightarrow> stmt" where
  "extract_severity det ev s =
     (case severity_func det of
        Some f \<Rightarrow> extract_field det ev Severity (Some f) (\<lambda>v r. r\<lparr>severity := v\<rparr>) s
      | None \<Rightarrow> (None, ((fst s)\<lparr>severity := default_severity det\<rparr>, snd s)))"

definition metadata_stmts :: "Detection \<Rightarrow> pyval \<Rightarrow> stmt list" where
  "metadata_stmts det ev =
     [extract_field det ev Title (title_func det) (\<lambda>v r. r\<lparr>title := v\<rparr>),
      extract_severity det ev,
      extract_field det ev Description (description_func det) (\<lambda>v r. r\<lparr>description := v\<rparr>),
      extract_field det ev Reference (reference_func det) (\<lambda>v r. r\<lparr>reference := v\<rparr>),
      extract_field det ev Runbook (runbook_func det) (\<lambda>v r. r\<lparr>runbook := v\<rparr>),
      extract_field det ev AlertContext (alert_context_func det) (\<lambda>v r. r\<lparr>alert_context := v\<rparr>),
      extract_field det ev Dedup (dedup_func det) (\<lambda>v r. r\<lparr>dedup_string := v\<rparr>)]"

definition try_body :: "Detection \<Rightarrow> pyval \<Rightarrow> stmt" where
  "try_body det ev s =
     (case call_hook det Rule (rule_func det) ev (snd s) of
        (Inl e, w) \<Rightarrow> (Some e, (fst s, w))
      | (Inr m, w) \<Rightarrow>
          (let result = (fst s)\<lparr>matched := truthy m\<rparr>
           in if matched result then run_stmts (metadata_stmts det ev) (result, w)
              else (None, (result, w))))"

definition format_fault :: "fault \<Rightarrow> string" where
  "format_fault e = fault_type e @ '': '' @ fault_msg e @ [CHR 0x0A] @ fault_traceback e"

definition initial_result :: "Detection \<Rightarrow> pyval \<Rightarrow> DetectionResult" where
  "initial_result det ev =
     \<lparr>rule_id = det_rule_id det, rule_file = file_path det, matched = False, event = ev,
      title = PNone, severity = PStr ''MEDIUM'', description = PNone, reference = PNone,
      runbook = PNone, alert_context = PNone, dedup_string = PNone, error = None,
      execution_time_ms = 0\<rparr>"

text \<open>
  \<open>except Exception\<close> catches every fault of the body. The result is a sum so that a
  fault leaving the function would be a value \<open>Inl\<close>.
\<close>

definition run_detection :: "clock \<Rightarrow> Detection \<Rightarrow> pyval \<Rightarrow> world \<Rightarrow> fault + (DetectionResult \<times> world)" where
  "run_detection clk det ev w0 =
     (case now clk w0 of (start_time, w1) \<Rightarrow>
      (case try_body det ev (initial_result det ev, w1) of (raised, (result, w2)) \<Rightarrow>
       (let result = (case raised of
                        Some e \<Rightarrow> result\<lparr>error := Some (format_fault e)\<rparr>
                      | None \<Rightarrow> result)
        in (case now clk w2 of (end_time, w3) \<Rightarrow>
            Inr (result\<lparr>execution_time_ms := of_int (end_time - start_time) / 1000000 * 1000\<rparr>,
                 w3)))))"

section \<open>engine.py: run\<close>

text \<open>
  The registry \<open>self.detections\<close> is a dictionary from rule id to unit, iterated in
  insertion order; it is the only part of the engine object the modelled methods read or
  write (\<open>helpers_path\<close> only extends \<open>sys.path\<close>). \<open>events\<close> is one event (a
  dictionary) or a list of events; \<open>rule_ids\<close> is \<open>None\<close> or a list of ids.
\<close>

record engine =
  detections :: "(string \<times> Detection) list"

datatype events_arg = OneEvent pyval | ManyEvents "pyval list"

fun events_list :: "events_arg \<Rightarrow> pyval list" where
  "events_list (OneEvent e) = [e]"
| "events_list (ManyEvents es) = es"

text \<open>\<open>rule_ids and rule_id not in rule_ids\<close>: \<open>None\<close> and the empty list are falsy.\<close>

fun skip_by_filter :: "string list option \<Rightarrow> string \<Rightarrow> bool" where
  "skip_by_filter None rid = False"
| "skip_by_filter (Some ids) rid = (ids \<noteq> [] \<and> rid \<notin> set ids)"

type_synonym run_state = "DetectionResult list \<times> world"

fun run_units :: "clock \<Rightarrow> (string \<times> Detection) list \<Rightarrow> string list option \<Rightarrow> pyval \<Rightarrow>
    run_state \<Rightarrow> fault + run_state" where
  "run_units clk [] rule_ids ev acc = Inr acc"
| "run_units clk ((rid, det) # rest) rule_ids ev (results, w) =
     (if skip_by_filter rule_ids rid then run_units clk rest rule_ids ev (results, w)
      else if \<not> enabled det then run_units clk rest rule_ids ev (results, w)
      else (case run_detection clk det ev w of
              Inl e \<Rightarrow> Inl e
            | Inr (result, w') \<Rightarrow> run_units clk rest rule_ids ev (results @ [result], w')))"

fun run_events :: "clock \<Rightarrow> engine \<Rightarrow> pyval list \<Rightarrow> string list option \<Rightarrow>
    run_state \<Rightarrow> fault + run_state" where
  "run_events clk self [] rule_ids acc = Inr acc"
| "run_events clk self (ev # evs) rule_ids acc =
     (case run_units clk (detections self) rule_ids ev acc of
        Inl e \<Rightarrow> Inl e
      | Inr acc' \<Rightarrow> run_events clk self evs rule_ids acc')"

definition run :: "clock \<Rightarrow> engine \<Rightarrow> events_arg \<Rightarrow> string list option \<Rightarrow> world \<Rightarrow>
    fault + run_state" where
  "run clk self events rule_ids w = run_events clk self (events_list events) rule_ids ([], w)"

section \<open>engine.py: load_rule and load_rules\<close>
















section \<open>schemas.py: LogSchema.validate\<close>

datatype LogType =
    AWS_CLOUDTRAIL | AWS_GUARDDUTY | AWS_S3_SERVER_ACCESS | AWS_VPC_FLOW | AWS_ALB
  | OKTA_SYSTEM_LOG | GITHUB_AUDIT | GCP_AUDIT | SYSMON | OSQUERY | AUDITD | CUSTOM_JSON

record SchemaField =
  field_name :: string
  field_type :: string
  required :: bool
  field_description :: string
  nested_schema :: "pydict option"

text \<open>\<open>required_fields\<close> is a set; the list is the order in which it is iterated.\<close>

record LogSchema =
  log_type :: LogType
  schema_description :: string
  schema_fields :: "(string \<times> SchemaField) list"
  required_fields :: "string list"
  timestamp_field :: string

datatype pyclass = Cstr | Cint | Cfloat | Cbool | Cdict | Clist

text \<open>\<open>isinstance(value, cls)\<close>: \<open>bool\<close> is a subclass of \<open>int\<close>.\<close>

fun isinstance :: "pyval \<Rightarrow> pyclass \<Rightarrow> bool" where
  "isinstance PNone c = False"
| "isinstance (PBool b) c = (c = Cbool \<or> c = Cint)"
| "isinstance (PInt i) c = (c = Cint)"
| "isinstance (PFloat r) c = (c = Cfloat)"
| "isinstance (PStr s) c = (c = Cstr)"
| "isinstance (PList xs) c = (c = Clist)"
| "isinstance (PDict kvs) c = (c = Cdict)"

text \<open>\<open>type(value).__name__\<close>\<close>

fun type_name :: "pyval \<Rightarrow> string" where
  "type_name PNone = ''NoneType''"
| "type_name (PBool b) = ''bool''"
| "type_name (PInt i) = ''int''"
| "type_name (PFloat r) = ''float''"
| "type_name (PStr s) = ''str''"
| "type_name (PList xs) = ''list''"
| "type_name (PDict kvs) = ''dict''"

definition type_map :: "(string \<times> pyclass list) list" where
  "type_map =
     [(''string'', [Cstr]), (''int'', [Cint]), (''float'', [Cint, Cfloat]), (''bool'', [Cbool]),
      (''object'', [Cdict]), (''array'', [Clist]), (''timestamp'', [Cstr])]"

definition check_type :: "pyval \<Rightarrow> string \<Rightarrow> bool" where
  "check_type v expected_type =
     (if v = PNone then True
      else (case map_of type_map expected_type of
              None \<Rightarrow> True
            | Some expected \<Rightarrow> list_ex (isinstance v) expected))"

definition missing_error :: "string \<Rightarrow> string" where
  "missing_error fname = ''Missing required field: '' @ fname"

definition wrong_type_error :: "string \<Rightarrow> string \<Rightarrow> pyval \<Rightarrow> string" where
  "wrong_type_error fname ftype v =
     ''Field '' @ [CHR 0x27] @ fname @ [CHR 0x27] @ '' has wrong type. ''
     @ ''Expected '' @ ftype @ '', got '' @ type_name v"

text \<open>The two loops of \<open>validate\<close>, each appending to \<open>errors\<close>.\<close>

definition validate :: "LogSchema \<Rightarrow> pydict \<Rightarrow> string list" where
  "validate self ev =
     (let errors = foldl (\<lambda>errors fname.
                       if \<not> dict_contains ev (KStr fname) then errors @ [missing_error fname]
                       else errors)
                     [] (required_fields self);
          errors = foldl (\<lambda>errors (fname, field_def).
                       if dict_contains ev (KStr fname)
                       then (let v = dict_get ev (KStr fname)
                             in if \<not> check_type v (field_type field_def)
                                then errors @ [wrong_type_error fname (field_type field_def) v]
                                else errors)
                       else errors)
                     errors (schema_fields self)
      in errors)"

section \<open>Definitions used to state the properties\<close>

subsection \<open>Verdict fields and extractors\<close>

text \<open>
  The field of the verdict each callable writes, the extractors of a unit in the order
  \<open>run_detection\<close> goes through them, those of them that are populated, the
  callables a run of the populated extractors invokes (up to and including the first
  that raises) and the first fault raised.
\<close>

fun field_of :: "hook \<Rightarrow> DetectionResult \<Rightarrow> pyval" where
  "field_of Rule r = PBool (matched r)"
| "field_of Title r = title r"
| "field_of Severity r = severity r"
| "field_of Description r = description r"
| "field_of Reference r = reference r"
| "field_of Runbook r = runbook r"
| "field_of AlertContext r = alert_context r"
| "field_of Dedup r = dedup_string r"

definition extractors :: "Detection \<Rightarrow> (hook \<times> callable option) list" where
  "extractors det =
     [(Title, title_func det), (Severity, severity_func det),
      (Description, description_func det), (Reference, reference_func det),
      (Runbook, runbook_func det), (AlertContext, alert_context_func det),
      (Dedup, dedup_func det)]"

fun populated_of :: "(hook \<times> callable option) list \<Rightarrow> (hook \<times> callable) list" where
  "populated_of [] = []"
| "populated_of ((h, None) # rest) = populated_of rest"
| "populated_of ((h, Some f) # rest) = (h, f) # populated_of rest"

definition populated :: "Detection \<Rightarrow> (hook \<times> callable) list" where
  "populated det = populated_of (extractors det)"

fun invoked_hooks :: "(hook \<times> callable) list \<Rightarrow> pyval \<Rightarrow> hook list" where
  "invoked_hooks [] ev = []"
| "invoked_hooks ((h, f) # rest) ev =
     (case f ev of Inl e \<Rightarrow> [h] | Inr v \<Rightarrow> h # invoked_hooks rest ev)"

fun first_fault :: "(hook \<times> callable) list \<Rightarrow> pyval \<Rightarrow> fault option" where
  "first_fault [] ev = None"
| "first_fault ((h, f) # rest) ev =
     (case f ev of Inl e \<Rightarrow> Some e | Inr v \<Rightarrow> first_fault rest ev)"

text \<open>
  For the proofs, each of the seven statements is seen as a slot: the callable, how its
  value is stored, and what happens to the verdict when the callable is not populated.
  \<open>apply_slots\<close> is the verdict the statements leave behind.
\<close>

type_synonym slot = "hook \<times> callable option \<times> (pyval \<Rightarrow> DetectionResult \<Rightarrow> DetectionResult)
   \<times> (DetectionResult \<Rightarrow> DetectionResult)"

definition slot_stmt :: "Detection \<Rightarrow> pyval \<Rightarrow> slot \<Rightarrow> stmt" where
  "slot_stmt det ev sl s =
     (case sl of (h, func, store, otherwise) \<Rightarrow>
        (case func of
           None \<Rightarrow> (None, (otherwise (fst s), snd s))
         | Some f \<Rightarrow> extract_field det ev h (Some f) store s))"

definition slots :: "Detection \<Rightarrow> slot list" where
  "slots det =
     [(Title, title_func det, (\<lambda>v r. r\<lparr>title := v\<rparr>), (\<lambda>r. r)),
      (Severity, severity_func det, (\<lambda>v r. r\<lparr>severity := v\<rparr>),
         (\<lambda>r. r\<lparr>severity := default_severity det\<rparr>)),
      (Description, description_func det, (\<lambda>v r. r\<lparr>description := v\<rparr>), (\<lambda>r. r)),
      (Reference, reference_func det, (\<lambda>v r. r\<lparr>reference := v\<rparr>), (\<lambda>r. r)),
      (Runbook, runbook_func det, (\<lambda>v r. r\<lparr>runbook := v\<rparr>), (\<lambda>r. r)),
      (AlertContext, alert_context_func det, (\<lambda>v r. r\<lparr>alert_context := v\<rparr>), (\<lambda>r. r)),
      (Dedup, dedup_func det, (\<lambda>v r. r\<lparr>dedup_string := v\<rparr>), (\<lambda>r. r))]"

fun apply_slots :: "slot list \<Rightarrow> pyval \<Rightarrow> DetectionResult \<Rightarrow> DetectionResult" where
  "apply_slots [] ev r = r"
| "apply_slots ((h, None, store, otherwise) # rest) ev r = apply_slots rest ev (otherwise r)"
| "apply_slots ((h, Some f, store, otherwise) # rest) ev r =
     (case f ev of Inl e \<Rightarrow> r | Inr v \<Rightarrow> apply_slots rest ev (store v r))"

definition slot_heads :: "slot list \<Rightarrow> (hook \<times> callable option) list" where
  "slot_heads sls = map (\<lambda>sl. (fst sl, fst (snd sl))) sls"

definition keeps :: "(DetectionResult \<Rightarrow> bool) \<Rightarrow> slot \<Rightarrow> bool" where
  "keeps P sl =
     (case sl of (h, func, store, otherwise) \<Rightarrow>
        (case func of
           None \<Rightarrow> (\<forall>r. P r \<longrightarrow> P (otherwise r))
         | Some f \<Rightarrow> (\<forall>v r. P r \<longrightarrow> P (store v r))))"

text \<open>
  The elapsed time \<open>run_detection\<close> stores and the world after it has invoked the
  given callables of a unit. \<open>verdict_of\<close> and \<open>world_of\<close> read the two parts of a
  returned pair.
\<close>

definition elapsed_ms :: "clock \<Rightarrow> world \<Rightarrow> rat" where
  "elapsed_ms clk w =
     of_int (clk (Suc (clock_reads w)) - clk (clock_reads w)) / 1000000 * 1000"

definition after_calls :: "world \<Rightarrow> Detection \<Rightarrow> hook list \<Rightarrow> world" where
  "after_calls w det hs =
     w\<lparr>clock_reads := Suc (Suc (clock_reads w)),
       invoked := invoked w @ map (Pair (det_rule_id det)) hs\<rparr>"

definition verdict_of :: "fault + (DetectionResult \<times> world) \<Rightarrow> DetectionResult" where
  "verdict_of x = fst (projr x)"

definition world_of :: "fault + (DetectionResult \<times> world) \<Rightarrow> world" where
  "world_of x = snd (projr x)"

definition verdicts_of :: "fault + run_state \<Rightarrow> DetectionResult list" where
  "verdicts_of x = fst (projr x)"

subsection \<open>Pairs evaluated by run\<close>

text \<open>
  A registry entry is selected when it passes the id filter (no filter, an empty filter,
  or the id is listed) and the unit is enabled. \<open>selected_pairs\<close> lists the pairs
  event-major, then in registry order. \<open>is_verdict\<close> says that a verdict is what
  \<open>run_detection\<close> returns for the pair.
\<close>

definition selected :: "string list option \<Rightarrow> string \<times> Detection \<Rightarrow> bool" where
  "selected rule_ids p =
     ((case rule_ids of None \<Rightarrow> True | Some ids \<Rightarrow> ids = [] \<or> fst p \<in> set ids)
      \<and> enabled (snd p))"

definition selected_pairs :: "(string \<times> Detection) list \<Rightarrow> pyval list \<Rightarrow> string list option \<Rightarrow>
    (pyval \<times> string \<times> Detection) list" where
  "selected_pairs reg evs rule_ids =
     concat (map (\<lambda>e. map (Pair e) (filter (selected rule_ids) reg)) evs)"

definition pair_of :: "DetectionResult \<Rightarrow> pyval \<times> string" where
  "pair_of r = (event r, rule_id r)"

definition is_verdict :: "clock \<Rightarrow> DetectionResult \<Rightarrow> pyval \<times> string \<times> Detection \<Rightarrow> bool" where
  "is_verdict clk r p =
     (\<exists>w1 w2. run_detection clk (snd (snd p)) (fst p) w1 = Inr (r, w2))"

subsection \<open>Loading\<close>








subsection \<open>Validation\<close>

definition missing_errors :: "LogSchema \<Rightarrow> pydict \<Rightarrow> string list" where
  "missing_errors self ev =
     map missing_error (filter (\<lambda>f. \<not> dict_contains ev (KStr f)) (required_fields self))"

definition type_errors :: "LogSchema \<Rightarrow> pydict \<Rightarrow> string list" where
  "type_errors self ev =
     map (\<lambda>(n, d). wrong_type_error n (field_type d) (dict_get ev (KStr n)))
         (filter (\<lambda>(n, d). dict_contains ev (KStr n)
                    \<and> \<not> check_type (dict_get ev (KStr n)) (field_type d))
                 (schema_fields self))"

definition without_field :: "LogSchema \<Rightarrow> string \<Rightarrow> LogSchema" where
  "without_field self f =
     self\<lparr>required_fields := filter (\<lambda>g. g \<noteq> f) (required_fields self),
          schema_fields := filter (\<lambda>p. fst p \<noteq> f) (schema_fields self)\<rparr>"

section \<open>Example inputs\<close>

definition example_event :: pyval where
  "example_event = PDict [(KStr ''userIdentity'', PDict [(KStr ''type'', PStr ''Root'')]),
                          (KStr ''records'', PList [PDict [(KStr ''id'', PInt 1)], PDict [(KStr ''id'', PInt 2)]]),
                          (KStr ''errorCode'', PNone)]"

definition example_clock :: clock where
  "example_clock n = 1500 * int n"

definition world0 :: world where
  "world0 = \<lparr>clock_reads = 0, invoked = []\<rparr>"

definition key_error :: fault where
  "key_error = Fault ''KeyError'' ''eventName'' ''Traceback (most recent call last)''"

definition raises_key_error :: callable where
  "raises_key_error ev = Inl key_error"

definition returns_true :: callable where
  "returns_true ev = Inr (PBool True)"

definition returns_false :: callable where
  "returns_false ev = Inr (PBool False)"

definition title_text :: callable where
  "title_text ev = Inr (PStr ''Root login'')"

definition severity_high :: callable where
  "severity_high ev = Inr (PStr ''HIGH'')"

definition bare_unit :: "string \<Rightarrow> callable \<Rightarrow> Detection" where
  "bare_unit rid rule =
     \<lparr>det_rule_id = rid, file_path = ''rules/'' @ rid @ ''.py'', rule_func = rule,
      title_func = None, severity_func = None, description_func = None,
      reference_func = None, runbook_func = None, alert_context_func = None,
      dedup_func = None, log_types = [], enabled = True, tags = []\<rparr>"


definition unit_quiet :: Detection where
  "unit_quiet = (bare_unit ''quiet'' returns_false)\<lparr>severity_func := Some severity_high\<rparr>"

definition unit_noisy :: Detection where
  "unit_noisy = (bare_unit ''noisy'' returns_true)
     \<lparr>title_func := Some raises_key_error, severity_func := Some severity_high\<rparr>"

definition unit_partial :: Detection where
  "unit_partial = (bare_unit ''partial'' returns_true)
     \<lparr>title_func := Some title_text, description_func := Some raises_key_error,
      runbook_func := Some title_text\<rparr>"

definition unit_a :: Detection where
  "unit_a = bare_unit ''A'' returns_true"

definition unit_b :: Detection where
  "unit_b = bare_unit ''B'' returns_false"

definition engine_ab :: engine where
  "engine_ab = \<lparr>detections = [(''A'', unit_a), (''B'', unit_b)]\<rparr>"

definition event1 :: pyval where
  "event1 = PDict [(KStr ''n'', PInt 1)]"

definition event2 :: pyval where
  "event2 = PDict [(KStr ''n'', PInt 2)]"




definition example_schema :: LogSchema where
  "example_schema =
     \<lparr>log_type = AWS_CLOUDTRAIL, schema_description = ''AWS CloudTrail audit logs'',
      schema_fields =
        [(''eventName'', \<lparr>field_name = ''eventName'', field_type = ''string'', required = True,
                          field_description = [], nested_schema = None\<rparr>),
         (''awsRegion'', \<lparr>field_name = ''awsRegion'', field_type = ''string'', required = False,
                          field_description = [], nested_schema = None\<rparr>)],
      required_fields = [''eventName''],
      timestamp_field = ''eventTime''\<rparr>"

section \<open>Properties of deep_get\<close>

lemma path_resolve_None: "path_resolve PNone ks = (if ks = [] then Some PNone else None)"
  by (cases ks) auto

lemma deep_get_loop_resolve:
  "deep_get_loop e ks d =
     Inr (case path_resolve e ks of None \<Rightarrow> d | Some v \<Rightarrow> if v = PNone then d else v)"
  by (induction e ks d rule: deep_get_loop.induct)
     (auto simp: dict_get_def list_getitem_def Let_def path_resolve_None split: option.splits if_splits)

lemma deep_get_resolve:
  "deep_get e ks d =
     Inr (case path_resolve e ks of None \<Rightarrow> d | Some v \<Rightarrow> if v = PNone then d else v)"
  by (simp add: deep_get_def deep_get_loop_resolve)

lemma path_resolve_append:
  "path_resolve e (p @ s) = (case path_resolve e p of None \<Rightarrow> None | Some n \<Rightarrow> path_resolve n s)"
  by (induction p arbitrary: e) (auto split: option.splits)

lemma step_fails_child: "step_fails node k \<longleftrightarrow> child node k = None"
  by (induction node k rule: step_fails.induct) (auto simp: dict_contains_def)

text \<open>
  Claim C6. For every event, key path and default, \<open>deep_get\<close> returns a value and
  never raises. It returns the default when some node along the path is absent, is not a
  mapping or a sequence, or is a sequence and the key is not an index in range; it
  returns the default when the path resolves to \<open>None\<close>; otherwise it returns the
  value the path resolves to.
\<close>

theorem deep_get_fails_soft:
  "(\<exists>v. deep_get E keys dflt = Inr v)
   \<and> (path_resolve E pre = Some node \<and> step_fails node k
        \<longrightarrow> deep_get E (pre @ k # post) dflt = Inr dflt)
   \<and> (path_resolve E keys = Some PNone \<longrightarrow> deep_get E keys dflt = Inr dflt)
   \<and> (path_resolve E keys = Some v \<and> v \<noteq> PNone \<longrightarrow> deep_get E keys dflt = Inr v)"
  by (simp add: deep_get_resolve path_resolve_append step_fails_child)

theorem deep_get_fails_soft_witness:
  "path_resolve example_event [KStr ''records''] =
     Some (PList [PDict [(KStr ''id'', PInt 1)], PDict [(KStr ''id'', PInt 2)]])
   \<and> step_fails (PList [PDict [(KStr ''id'', PInt 1)], PDict [(KStr ''id'', PInt 2)]]) (KInt 2)
   \<and> deep_get example_event ([KStr ''records''] @ KInt 2 # [KStr ''id'']) (PStr ''N/A'') = Inr (PStr ''N/A'')
   \<and> path_resolve example_event [KStr ''errorCode''] = Some PNone
   \<and> deep_get example_event [KStr ''errorCode''] (PStr ''N/A'') = Inr (PStr ''N/A'')
   \<and> path_resolve example_event [KStr ''records'', KInt (-1), KStr ''id''] = Some (PInt 2)
   \<and> deep_get example_event [KStr ''records'', KInt (-1), KStr ''id''] (PStr ''N/A'') = Inr (PInt 2)"
  using deep_get_fails_soft [of example_event "[KStr ''records'', KInt (-1), KStr ''id'']" "PStr ''N/A''"
      "[KStr ''records'']" "PList [PDict [(KStr ''id'', PInt 1)], PDict [(KStr ''id'', PInt 2)]]"
      "KInt 2" "[KStr ''id'']" "PInt 2"]
    deep_get_fails_soft [of example_event "[KStr ''errorCode'']" "PStr ''N/A''"
      "[]" example_event "KStr ''x''" "[]" "PInt 2"]
  by (simp add: example_event_def)

text \<open>
  Claim C7. For a path that resolves in the event, looking up a prefix and then the
  suffix in the value found gives the same as looking up the whole path, whatever the
  default.
\<close>

theorem deep_get_compose:
  assumes "path_resolve E (pre @ post) \<noteq> None"
  shows "(case deep_get E pre dflt of Inl e \<Rightarrow> Inl e | Inr v \<Rightarrow> deep_get v post dflt)
         = deep_get E (pre @ post) dflt"
  using assms
  by (auto simp: deep_get_resolve path_resolve_append path_resolve_None
           split: option.splits if_splits)

theorem deep_get_compose_witness:
  "path_resolve example_event ([KStr ''userIdentity''] @ [KStr ''type'']) \<noteq> None
   \<and> deep_get example_event [KStr ''userIdentity''] PNone = Inr (PDict [(KStr ''type'', PStr ''Root'')])
   \<and> deep_get (PDict [(KStr ''type'', PStr ''Root'')]) [KStr ''type''] PNone = Inr (PStr ''Root'')
   \<and> deep_get example_event ([KStr ''userIdentity''] @ [KStr ''type'']) PNone = Inr (PStr ''Root'')"
proof -
  have v: "path_resolve example_event ([KStr ''userIdentity''] @ [KStr ''type'']) \<noteq> None"
    by (simp add: example_event_def)
  have p: "deep_get example_event [KStr ''userIdentity''] PNone = Inr (PDict [(KStr ''type'', PStr ''Root'')])"
    by (simp add: example_event_def deep_get_def dict_get_def)
  have s: "deep_get (PDict [(KStr ''type'', PStr ''Root'')]) [KStr ''type''] PNone = Inr (PStr ''Root'')"
    by (simp add: deep_get_def dict_get_def)
  from deep_get_compose [OF v, of PNone] p s
  have "deep_get example_event ([KStr ''userIdentity''] @ [KStr ''type'']) PNone = Inr (PStr ''Root'')"
    by simp
  with v p s show ?thesis by simp
qed

text \<open>
  With the default \<open>None\<close> the same holds for every path, resolving or not.
\<close>

lemma deep_get_compose_None:
  "(case deep_get E pre PNone of Inl e \<Rightarrow> Inl e | Inr v \<Rightarrow> deep_get v post PNone)
         = deep_get E (pre @ post) PNone"
  by (auto simp: deep_get_resolve path_resolve_append path_resolve_None
           split: option.splits if_splits)

section \<open>Properties of deep_walk\<close>

lemma walk_list:
  "walk rv (PList xs) (k # rest) = concat (map (\<lambda>item. walk rv item (k # rest)) xs)"
proof -
  have "foldl (\<lambda>results item. results @ f item) acc ys = acc @ concat (map f ys)" for f :: "pyval \<Rightarrow> pyval list" and acc ys
    by (induction ys arbitrary: acc) auto
  then show ?thesis by simp
qed

text \<open>
  Claim C5, as the code has it. On a list met with keys left, \<open>_walk\<close> applies the
  remaining path to every element and concatenates the results in element order.
  \<open>deep_walk\<close> returns the results when there are any; when there are none it returns
  the default if the default is not \<open>None\<close>, and the empty list otherwise. For the
  event \<open>{"records": [{"id": 1}, {"id": 2}]}\<close> it returns \<open>[1, 2]\<close>; for
  \<open>{"records": []}\<close> it returns the default when that is not \<open>None\<close> and
  \<open>[]\<close> when it is.
\<close>

theorem deep_walk_fan_out:
  "walk rv (PList xs) (k # rest) = concat (map (\<lambda>item. walk rv item (k # rest)) xs)
   \<and> deep_walk E keys dflt rv =
       (if walk rv E keys \<noteq> [] then PList (walk rv E keys)
        else if dflt \<noteq> PNone then dflt else PList [])
   \<and> deep_walk (PDict [(KStr ''records'', PList [PDict [(KStr ''id'', PInt 1)], PDict [(KStr ''id'', PInt 2)]])])
        [KStr ''records'', KStr ''id''] dflt ''value'' = PList [PInt 1, PInt 2]
   \<and> deep_walk (PDict [(KStr ''records'', PList [])]) [KStr ''records'', KStr ''id''] dflt ''value''
       = (if dflt \<noteq> PNone then dflt else PList [])"
proof (intro conjI)
  show "walk rv (PList xs) (k # rest) = concat (map (\<lambda>item. walk rv item (k # rest)) xs)"
    by (rule walk_list)
qed (simp_all add: deep_walk_def)

theorem deep_walk_fan_out_witness:
  "deep_walk example_event [KStr ''records'', KStr ''id''] (PStr ''none'') ''value''
     = PList [PInt 1, PInt 2]
   \<and> deep_walk example_event [KStr ''records'', KStr ''name''] (PStr ''none'') ''value''
     = PStr ''none''
   \<and> deep_walk example_event [KStr ''records'', KStr ''name''] PNone ''value'' = PList []"
proof -
  have "walk ''value'' example_event [KStr ''records'', KStr ''id''] = [PInt 1, PInt 2]"
    and "walk ''value'' example_event [KStr ''records'', KStr ''name''] = []"
    by (simp_all add: example_event_def)
  with deep_walk_fan_out[of "''value''" "[]" "KStr ''id''" "[]" example_event
      "[KStr ''records'', KStr ''id'']" "PStr ''none''"]
    deep_walk_fan_out[of "''value''" "[]" "KStr ''id''" "[]" example_event
      "[KStr ''records'', KStr ''name'']" "PStr ''none''"]
    deep_walk_fan_out[of "''value''" "[]" "KStr ''id''" "[]" example_event
      "[KStr ''records'', KStr ''name'']" PNone]
  show ?thesis by simp
qed

text \<open>
  With the default left at \<open>None\<close>, the event \<open>{"records": []}\<close> gives the empty
  list, not the default.
\<close>

theorem deep_walk_default_counterexample:
  "deep_walk (PDict [(KStr ''records'', PList [])]) [KStr ''records'', KStr ''id''] PNone ''value'' \<noteq> PNone"
  by (simp add: deep_walk_def)

section \<open>Properties of run_detection\<close>

lemma metadata_stmts_slots: "metadata_stmts det ev = map (slot_stmt det ev) (slots det)"
  unfolding metadata_stmts_def slots_def
  by (auto simp: slot_stmt_def extract_field_def extract_severity_def fun_eq_iff
           split: option.splits)

lemma slot_heads_slots: "slot_heads (slots det) = extractors det"
  by (simp add: slot_heads_def slots_def extractors_def)

lemma run_stmts_slots:
  "run_stmts (map (slot_stmt det ev) sls) (r, w) =
     (first_fault (populated_of (slot_heads sls)) ev,
      (apply_slots sls ev r,
       w\<lparr>invoked := invoked w @
           map (Pair (det_rule_id det)) (invoked_hooks (populated_of (slot_heads sls)) ev)\<rparr>))"
proof (induction sls arbitrary: r w)
  case Nil
  then show ?case by (simp add: slot_heads_def)
next
  case (Cons sl sls)
  obtain h func store otherwise where sl: "sl = (h, func, store, otherwise)"
    by (cases sl) auto
  show ?case
  proof (cases func)
    case None
    with sl Cons show ?thesis
      by (simp add: slot_stmt_def slot_heads_def)
  next
    case (Some f)
    with sl Cons show ?thesis
      by (cases "f ev") (simp_all add: slot_stmt_def slot_heads_def extract_field_def call_hook_def)
  qed
qed

lemma apply_slots_invariant:
  "list_all (keeps P) sls \<Longrightarrow> P r \<Longrightarrow> P (apply_slots sls ev r)"
proof (induction sls ev r rule: apply_slots.induct)
  case (1 ev r)
  then show ?case by simp
next
  case (2 h store otherwise rest ev r)
  then show ?case by (simp add: keeps_def)
next
  case (3 h f store otherwise rest ev r)
  then show ?case by (cases "f ev") (simp_all add: keeps_def)
qed

lemma slots_keep_field:
  "h \<notin> fst ` set sls \<Longrightarrow> set sls \<subseteq> set (slots det)
     \<Longrightarrow> list_all (keeps (\<lambda>r. field_of h r = x)) sls"
  unfolding list_all_iff
proof
  fix sl assume h: "h \<notin> fst ` set sls" and sub: "set sls \<subseteq> set (slots det)" and sl: "sl \<in> set sls"
  from sl sub have "sl \<in> set (slots det)" by auto
  moreover from sl h have "fst sl \<noteq> h" by auto
  ultimately show "keeps (\<lambda>r. field_of h r = x) sl"
    by (cases h) (auto simp: slots_def keeps_def split: option.splits)
qed

lemma slots_keep_core:
  "list_all (keeps (\<lambda>r. matched r = m \<and> rule_id r = i \<and> rule_file r = f \<and> event r = e
      \<and> error r = er \<and> execution_time_ms r = t)) (slots det)"
  by (auto simp: slots_def keeps_def split: option.splits)

lemma slots_keep_severity:
  "severity_func det = None \<Longrightarrow>
     list_all (keeps (\<lambda>r. severity r = PStr ''MEDIUM'')) (slots det)"
  by (auto simp: slots_def keeps_def default_severity_def split: option.splits)

lemma populated_of_fst: "fst ` set (populated_of hs) \<subseteq> fst ` set hs"
  by (induction hs rule: populated_of.induct) auto

lemma slot_heads_fst: "fst ` set (slot_heads sls) = fst ` set sls"
  by (simp add: slot_heads_def image_image)

lemma invoked_hooks_subset: "set (invoked_hooks ps ev) \<subseteq> fst ` set ps"
  by (induction ps ev rule: invoked_hooks.induct) (auto split: sum.splits)

lemma apply_slots_kept:
  assumes "set sls \<subseteq> set (slots det)" and "distinct (map fst sls)"
    and "(h, f) \<in> set (populated_of (slot_heads sls))"
    and "h \<in> set (invoked_hooks (populated_of (slot_heads sls)) ev)"
    and "f ev = Inr v"
  shows "field_of h (apply_slots sls ev r) = v"
  using assms
proof (induction sls ev r rule: apply_slots.induct)
  case (1 ev r)
  then show ?case by (simp add: slot_heads_def)
next
  case (2 h0 store otherwise rest ev r)
  then show ?case by (simp add: slot_heads_def)
next
  case (3 h0 f0 store otherwise rest ev r)
  have notin: "h0 \<notin> fst ` set (populated_of (slot_heads rest))"
  proof -
    have "h0 \<notin> fst ` set rest" using 3(3) by simp
    then show ?thesis using populated_of_fst[of "slot_heads rest"] slot_heads_fst[of rest] by blast
  qed
  have sub: "set rest \<subseteq> set (slots det)" and dist: "distinct (map fst rest)" 
    and h0rest: "h0 \<notin> fst ` set rest" using 3 by auto
  have mem: "(h0, Some f0, store, otherwise) \<in> set (slots det)" using 3(2) by simp
  have store: "field_of h0 (store v' r') = v'" for v' r'
    using mem by (auto simp: slots_def)
  show ?case
  proof (cases "f0 ev")
    case (Inl e)
    with 3 have "h = h0" by (simp add: slot_heads_def)
    with \<open>h = h0\<close> 3(4) notin have "f = f0" by (force simp: slot_heads_def)
    with Inl 3(6) show ?thesis by simp
  next
    case (Inr v0)
    show ?thesis
    proof (cases "h = h0")
      case True
      with 3(4) notin have "f = f0" by (force simp: slot_heads_def)
      with Inr 3(6) have v: "v0 = v" by simp
      have "field_of h0 (apply_slots rest ev (store v0 r)) = v0"
        using apply_slots_invariant[where P = "\<lambda>r. field_of h0 r = v0" and r = "store v0 r"
            and ev = ev and sls = rest, OF slots_keep_field[OF h0rest sub]] store by simp
      with True Inr v show ?thesis by simp
    next
      case False
      with 3(4) have a: "(h, f) \<in> set (populated_of (slot_heads rest))"
        by (auto simp: slot_heads_def)
      from False 3(5) Inr have b: "h \<in> set (invoked_hooks (populated_of (slot_heads rest)) ev)"
        by (auto simp: slot_heads_def)
      from 3(1)[OF Inr sub dist a b 3(6)] Inr show ?thesis by simp
    qed
  qed
qed

lemma slots_otherwise:
  "(h0, None, store, otherwise) \<in> set (slots det) \<Longrightarrow>
     (h0 = Severity \<and> otherwise = (\<lambda>r. r\<lparr>severity := PStr ''MEDIUM''\<rparr>))
     \<or> (h0 \<noteq> Severity \<and> otherwise = (\<lambda>r. r))"
  by (auto simp: slots_def default_severity_def)

lemma slots_store:
  "(h0, Some f0, store, otherwise) \<in> set (slots det) \<Longrightarrow> h \<noteq> h0 \<Longrightarrow>
     field_of h (store v r) = field_of h r"
  by (cases h) (auto simp: slots_def)

lemma apply_slots_untouched:
  assumes "set sls \<subseteq> set (slots det)" and "distinct (map fst sls)"
    and "severity r = PStr ''MEDIUM'' \<or> Severity \<notin> fst ` set sls"
    and "h \<notin> set (invoked_hooks (populated_of (slot_heads sls)) ev)"
  shows "field_of h (apply_slots sls ev r) = field_of h r"
  using assms
proof (induction sls ev r rule: apply_slots.induct)
  case (1 ev r)
  then show ?case by simp
next
  case (2 h0 store otherwise rest ev r)
  have mem: "(h0, None, store, otherwise) \<in> set (slots det)" using 2(2) by simp
  have sub: "set rest \<subseteq> set (slots det)" and dist: "distinct (map fst rest)"
    and h0rest: "h0 \<notin> fst ` set rest" using 2 by auto
  have ni: "h \<notin> set (invoked_hooks (populated_of (slot_heads rest)) ev)"
    using 2(5) by (simp add: slot_heads_def)
  from slots_otherwise[OF mem] show ?case
  proof
    assume a: "h0 = Severity \<and> otherwise = (\<lambda>r. r\<lparr>severity := PStr ''MEDIUM''\<rparr>)"
    with 2(4) have sv: "severity r = PStr ''MEDIUM''" by auto
    with a have o: "otherwise r = r" by simp
    from a h0rest have "severity r = PStr ''MEDIUM'' \<or> Severity \<notin> fst ` set rest" by simp
    from 2(1)[OF sub dist _ ni, of] this o show ?thesis by simp
  next
    assume a: "h0 \<noteq> Severity \<and> otherwise = (\<lambda>r. r)"
    with 2(4) have "severity r = PStr ''MEDIUM'' \<or> Severity \<notin> fst ` set rest" by auto
    from 2(1)[OF sub dist _ ni] this a show ?thesis by simp
  qed
next
  case (3 h0 f0 store otherwise rest ev r)
  have mem: "(h0, Some f0, store, otherwise) \<in> set (slots det)" using 3(2) by simp
  have sub: "set rest \<subseteq> set (slots det)" and dist: "distinct (map fst rest)"
    and h0rest: "h0 \<notin> fst ` set rest" using 3 by auto
  show ?case
  proof (cases "f0 ev")
    case (Inl e)
    then show ?thesis by simp
  next
    case (Inr v0)
    with 3(5) have ne: "h \<noteq> h0"
      and ni: "h \<notin> set (invoked_hooks (populated_of (slot_heads rest)) ev)"
      by (auto simp: slot_heads_def)
    have sev: "severity (store v0 r) = PStr ''MEDIUM'' \<or> Severity \<notin> fst ` set rest"
    proof (cases "h0 = Severity")
      case True
      with h0rest show ?thesis by simp
    next
      case False
      with slots_store[OF mem, of Severity v0 r] 3(4) show ?thesis by auto
    qed
    from 3(1)[OF Inr sub dist sev ni] slots_store[OF mem ne, of v0 r] Inr show ?thesis by simp
  qed
qed

text \<open>
  What \<open>run_detection\<close> returns in each of the three cases of the predicate: it
  raises, it returns a falsy value, it returns a truthy value.
\<close>

lemma run_detection_rule_raises:
  "rule_func det ev = Inl e \<Longrightarrow>
     run_detection clk det ev w =
       Inr ((initial_result det ev)\<lparr>error := Some (format_fault e),
                                     execution_time_ms := elapsed_ms clk w\<rparr>,
            after_calls w det [Rule])"
  by (simp add: run_detection_def now_def try_body_def call_hook_def elapsed_ms_def
        after_calls_def)

lemma run_detection_unmatched:
  "rule_func det ev = Inr m \<Longrightarrow> \<not> truthy m \<Longrightarrow>
     run_detection clk det ev w =
       Inr ((initial_result det ev)\<lparr>execution_time_ms := elapsed_ms clk w\<rparr>,
            after_calls w det [Rule])"
  by (simp add: run_detection_def now_def try_body_def call_hook_def elapsed_ms_def
        after_calls_def initial_result_def)

lemma run_detection_matched:
  "rule_func det ev = Inr m \<Longrightarrow> truthy m \<Longrightarrow>
     run_detection clk det ev w =
       Inr ((case first_fault (populated det) ev of
               None \<Rightarrow> apply_slots (slots det) ev ((initial_result det ev)\<lparr>matched := True\<rparr>)
             | Some e \<Rightarrow> (apply_slots (slots det) ev ((initial_result det ev)\<lparr>matched := True\<rparr>))
                           \<lparr>error := Some (format_fault e)\<rparr>)
             \<lparr>execution_time_ms := elapsed_ms clk w\<rparr>,
            after_calls w det (Rule # invoked_hooks (populated det) ev))"
  by (simp add: run_detection_def now_def try_body_def call_hook_def elapsed_ms_def
        after_calls_def metadata_stmts_slots run_stmts_slots slot_heads_slots populated_def
        split: option.splits)

lemma run_detection_returns:
  "\<exists>r w'. run_detection clk det ev w = Inr (r, w')"
  by (simp add: run_detection_def split: prod.splits)

lemma matched_core:
  "matched (apply_slots (slots det) ev r) = matched r
   \<and> rule_id (apply_slots (slots det) ev r) = rule_id r
   \<and> rule_file (apply_slots (slots det) ev r) = rule_file r
   \<and> event (apply_slots (slots det) ev r) = event r
   \<and> error (apply_slots (slots det) ev r) = error r"
  using apply_slots_invariant[where sls = "slots det" and r = r and ev = ev
     and P = "\<lambda>r'. matched r' = matched r \<and> rule_id r' = rule_id r \<and> rule_file r' = rule_file r
        \<and> event r' = event r \<and> error r' = error r \<and> execution_time_ms r' = execution_time_ms r",
     OF slots_keep_core]
  by simp

lemma run_detection_ids:
  assumes "run_detection clk det ev w = Inr (r, w')"
  shows "rule_id r = det_rule_id det \<and> rule_file r = file_path det \<and> event r = ev"
proof (cases "rule_func det ev")
  case (Inl e)
  from run_detection_rule_raises[OF Inl, of clk w] assms show ?thesis
    by (auto simp: initial_result_def)
next
  case (Inr m)
  show ?thesis
  proof (cases "truthy m")
    case True
    from run_detection_matched[OF Inr True, of clk w] assms show ?thesis
      by (auto simp: matched_core initial_result_def split: option.splits)
  next
    case False
    from run_detection_unmatched[OF Inr False, of clk w] assms show ?thesis
      by (auto simp: initial_result_def)
  qed
qed

lemma run_detection_matched_iff:
  assumes "run_detection clk det ev w = Inr (r, w')"
  shows "matched r \<longleftrightarrow> (\<exists>m. rule_func det ev = Inr m \<and> truthy m)"
proof (cases "rule_func det ev")
  case (Inl e)
  from run_detection_rule_raises[OF Inl, of clk w] assms Inl show ?thesis
    by (auto simp: initial_result_def)
next
  case (Inr m)
  show ?thesis
  proof (cases "truthy m")
    case True
    from run_detection_matched[OF Inr True, of clk w] assms Inr True show ?thesis
      by (auto simp: matched_core initial_result_def split: option.splits)
  next
    case False
    from run_detection_unmatched[OF Inr False, of clk w] assms Inr False show ?thesis
      by (auto simp: initial_result_def)
  qed
qed



text \<open>
  Claim C2, as the code has it. When the returned verdict has \<open>matched\<close> false, the
  fields \<open>title\<close>, \<open>description\<close>, \<open>reference\<close>, \<open>runbook\<close>,
  \<open>alert_context\<close> and \<open>dedup_string\<close> are \<open>None\<close> and \<open>to_dict\<close> renders them
  as null; \<open>severity\<close> holds its default \<open>"MEDIUM"\<close> and \<open>to_dict\<close> renders it as
  that string.
\<close>

theorem unmatched_verdict_defaults:
  assumes "run_detection clk det ev w = Inr (r, w')" and "\<not> matched r"
  shows "title r = PNone \<and> severity r = PStr ''MEDIUM'' \<and> description r = PNone
         \<and> reference r = PNone \<and> runbook r = PNone \<and> alert_context r = PNone
         \<and> dedup_string r = PNone
         \<and> map_of (to_dict r) (KStr ''title'') = Some PNone
         \<and> map_of (to_dict r) (KStr ''severity'') = Some (PStr ''MEDIUM'')
         \<and> map_of (to_dict r) (KStr ''description'') = Some PNone
         \<and> map_of (to_dict r) (KStr ''reference'') = Some PNone
         \<and> map_of (to_dict r) (KStr ''runbook'') = Some PNone
         \<and> map_of (to_dict r) (KStr ''alert_context'') = Some PNone
         \<and> map_of (to_dict r) (KStr ''dedup_string'') = Some PNone"
proof -
  have "\<exists>err. r = (initial_result det ev)\<lparr>error := err, execution_time_ms := elapsed_ms clk w\<rparr>"
  proof (cases "rule_func det ev")
    case (Inl e)
    from run_detection_rule_raises[OF Inl, of clk w] assms(1) show ?thesis by auto
  next
    case (Inr m)
    with run_detection_matched_iff[OF assms(1)] assms(2) have f: "\<not> truthy m" by auto
    from run_detection_unmatched[OF Inr f, of clk w] assms(1)
    have "r = (initial_result det ev)\<lparr>error := None, execution_time_ms := elapsed_ms clk w\<rparr>"
      by (simp add: initial_result_def)
    then show ?thesis by blast
  qed
  then obtain err where r: "r = (initial_result det ev)\<lparr>error := err, execution_time_ms := elapsed_ms clk w\<rparr>"
    by blast
  show ?thesis unfolding r by (simp add: initial_result_def to_dict_def)
qed

theorem unmatched_verdict_defaults_witness:
  "run_detection example_clock unit_quiet example_event world0
       = Inr (verdict_of (run_detection example_clock unit_quiet example_event world0),
              world_of (run_detection example_clock unit_quiet example_event world0))
   \<and> \<not> matched (verdict_of (run_detection example_clock unit_quiet example_event world0))
   \<and> title (verdict_of (run_detection example_clock unit_quiet example_event world0)) = PNone
   \<and> severity (verdict_of (run_detection example_clock unit_quiet example_event world0))
       = PStr ''MEDIUM''
   \<and> map_of (to_dict (verdict_of (run_detection example_clock unit_quiet example_event world0)))
        (KStr ''dedup_string'') = Some PNone"
proof -
  let ?X = "run_detection example_clock unit_quiet example_event world0"
  have "rule_func unit_quiet example_event = Inr (PBool False)"
    by (simp add: unit_quiet_def bare_unit_def returns_false_def)
  from run_detection_unmatched[OF this, of example_clock world0]
  have X: "?X = Inr (verdict_of ?X, world_of ?X)" and m: "\<not> matched (verdict_of ?X)"
    by (simp_all add: verdict_of_def world_of_def initial_result_def)
  from unmatched_verdict_defaults[OF X m] X m show ?thesis by simp
qed

text \<open>
  A unit whose predicate returns \<open>False\<close>: the serialised severity is the string
  \<open>"MEDIUM"\<close>, neither null nor left out.
\<close>

theorem unmatched_severity_counterexample:
  "\<not> matched (verdict_of (run_detection example_clock unit_quiet example_event world0))
   \<and> map_of (to_dict (verdict_of (run_detection example_clock unit_quiet example_event world0)))
        (KStr ''severity'') = Some (PStr ''MEDIUM'')"
proof -
  have "rule_func unit_quiet example_event = Inr (PBool False)"
    by (simp add: unit_quiet_def bare_unit_def returns_false_def)
  from run_detection_unmatched[OF this, of example_clock world0] show ?thesis
    by (simp add: verdict_of_def initial_result_def to_dict_def)
qed

text \<open>
  Claim C3, as the code has it. When the predicate has returned a truthy value,
  \<open>matched\<close> is true and stays true; the populated extractors are invoked in the order
  title, severity, description, reference, runbook, alert_context, dedup, up to and
  including the first one that raises, and the extractors after it are not invoked. The
  fault of that extractor is recorded in \<open>error\<close>; the value of every extractor that
  was invoked and returned is in its field, and the field of every extractor that was
  not invoked is as in a fresh verdict. Without a severity extractor the severity is
  \<open>"MEDIUM"\<close>.
\<close>

theorem extractors_in_order:
  assumes "rule_func det ev = Inr m" and "truthy m"
    and "run_detection clk det ev w = Inr (r, w')"
  shows "matched r
         \<and> invoked w' = invoked w @ map (Pair (det_rule_id det))
                                      (Rule # invoked_hooks (populated det) ev)
         \<and> error r = map_option format_fault (first_fault (populated det) ev)
         \<and> (\<forall>h f v. (h, f) \<in> set (populated det)
                \<and> h \<in> set (invoked_hooks (populated det) ev) \<and> f ev = Inr v
              \<longrightarrow> field_of h r = v)
         \<and> (\<forall>h. h \<noteq> Rule \<and> h \<notin> set (invoked_hooks (populated det) ev)
              \<longrightarrow> field_of h r = field_of h (initial_result det ev))
         \<and> (severity_func det = None \<longrightarrow> severity r = PStr ''MEDIUM'')"
proof -
  let ?R = "apply_slots (slots det) ev ((initial_result det ev)\<lparr>matched := True\<rparr>)"
  let ?ff = "first_fault (populated det) ev"
  from run_detection_matched[OF assms(1,2), of clk w] assms(3)
  have r: "r = (case ?ff of None \<Rightarrow> ?R | Some e \<Rightarrow> ?R\<lparr>error := Some (format_fault e)\<rparr>)
                 \<lparr>execution_time_ms := elapsed_ms clk w\<rparr>"
    and w': "w' = after_calls w det (Rule # invoked_hooks (populated det) ev)" by simp_all
  have fields: "field_of h r = field_of h ?R" for h
    unfolding r by (cases h; cases ?ff) simp_all
  have m: "matched r" using fields[of Rule] matched_core[of det ev] by simp
  have e: "error r = map_option format_fault ?ff"
    unfolding r using matched_core[of det ev] by (cases ?ff) (simp_all add: initial_result_def)
  have dist: "distinct (map fst (slots det))" by (simp add: slots_def)
  have kept: "field_of h r = v"
    if "(h, f) \<in> set (populated det)" "h \<in> set (invoked_hooks (populated det) ev)" "f ev = Inr v"
    for h f v
    using apply_slots_kept[where sls = "slots det" and det = det and h = h and f = f and ev = ev
        and v = v, OF subset_refl dist] that fields[of h]
    by (simp add: slot_heads_slots populated_def)
  have sev: "severity r = PStr ''MEDIUM''" if "severity_func det = None"
    using apply_slots_invariant[OF slots_keep_severity[OF that],
        of "(initial_result det ev)\<lparr>matched := True\<rparr>" ev] fields[of Severity]
    by (simp add: initial_result_def)
  have skipped: "field_of h r = field_of h (initial_result det ev)"
    if "h \<noteq> Rule" "h \<notin> set (invoked_hooks (populated det) ev)" for h
  proof -
    have "field_of h ?R = field_of h ((initial_result det ev)\<lparr>matched := True\<rparr>)"
      using apply_slots_untouched[where sls = "slots det" and det = det and h = h and ev = ev
          and r = "(initial_result det ev)\<lparr>matched := True\<rparr>", OF subset_refl dist] that(2)
      by (simp add: slot_heads_slots populated_def initial_result_def)
    with that(1) fields[of h] show ?thesis by (cases h) simp_all
  qed
  from m w' e kept skipped sev show ?thesis by (auto simp: after_calls_def)
qed

theorem extractors_in_order_witness:
  "rule_func unit_partial example_event = Inr (PBool True) \<and> truthy (PBool True)
   \<and> run_detection example_clock unit_partial example_event world0
       = Inr (verdict_of (run_detection example_clock unit_partial example_event world0),
              world_of (run_detection example_clock unit_partial example_event world0))
   \<and> matched (verdict_of (run_detection example_clock unit_partial example_event world0))
   \<and> invoked (world_of (run_detection example_clock unit_partial example_event world0))
       = [(''partial'', Rule), (''partial'', Title), (''partial'', Description)]
   \<and> error (verdict_of (run_detection example_clock unit_partial example_event world0))
       = Some (format_fault key_error)
   \<and> (Title, title_text) \<in> set (populated unit_partial)
   \<and> Title \<in> set (invoked_hooks (populated unit_partial) example_event)
   \<and> title_text example_event = Inr (PStr ''Root login'')
   \<and> field_of Title (verdict_of (run_detection example_clock unit_partial example_event world0))
       = PStr ''Root login''
   \<and> Runbook \<noteq> Rule
   \<and> Runbook \<notin> set (invoked_hooks (populated unit_partial) example_event)
   \<and> field_of Runbook (verdict_of (run_detection example_clock unit_partial example_event world0))
       = PNone
   \<and> severity_func unit_partial = None
   \<and> severity (verdict_of (run_detection example_clock unit_partial example_event world0))
       = PStr ''MEDIUM''"
proof -
  let ?X = "run_detection example_clock unit_partial example_event world0"
  have r: "rule_func unit_partial example_event = Inr (PBool True)"
    by (simp add: unit_partial_def bare_unit_def returns_true_def)
  have t: "truthy (PBool True)" by simp
  obtain v w' where X: "?X = Inr (v, w')" using run_detection_returns by blast
  have pop: "populated unit_partial
      = [(Title, title_text), (Description, raises_key_error), (Runbook, title_text)]"
    by (simp add: populated_def extractors_def unit_partial_def bare_unit_def)
  have inv: "invoked_hooks (populated unit_partial) example_event = [Title, Description]"
    and ff: "first_fault (populated unit_partial) example_event = Some key_error"
    by (simp_all add: pop title_text_def raises_key_error_def)
  have tt: "title_text example_event = Inr (PStr ''Root login'')" by (simp add: title_text_def)
  have sv: "severity_func unit_partial = None" by (simp add: unit_partial_def bare_unit_def)
  from extractors_in_order[OF r t X]
  have c: "matched v"
    "invoked w' = invoked world0 @ map (Pair (det_rule_id unit_partial))
                                      (Rule # invoked_hooks (populated unit_partial) example_event)"
    "error v = map_option format_fault (first_fault (populated unit_partial) example_event)"
    "\<forall>h f x. (h, f) \<in> set (populated unit_partial)
                \<and> h \<in> set (invoked_hooks (populated unit_partial) example_event)
                \<and> f example_event = Inr x \<longrightarrow> field_of h v = x"
    "\<forall>h. h \<noteq> Rule \<and> h \<notin> set (invoked_hooks (populated unit_partial) example_event)
              \<longrightarrow> field_of h v = field_of h (initial_result unit_partial example_event)"
    "severity_func unit_partial = None \<longrightarrow> severity v = PStr ''MEDIUM''"
    by blast+
  have m1: "(Title, title_text) \<in> set (populated unit_partial)" by (simp add: pop)
  have m2: "Title \<in> set (invoked_hooks (populated unit_partial) example_event)" by (simp add: inv)
  from c(4) m1 m2 tt have ti: "field_of Title v = PStr ''Root login''" by blast
  have m3: "Runbook \<noteq> Rule \<and> Runbook \<notin> set (invoked_hooks (populated unit_partial) example_event)"
    by (simp add: inv)
  with c(5) have "field_of Runbook v = field_of Runbook (initial_result unit_partial example_event)"
    by blast
  then have rb: "field_of Runbook v = PNone" by (simp add: initial_result_def)
  from c(1,2,3,6) ti rb sv inv ff pop tt r X show ?thesis
    by (simp add: verdict_of_def world_of_def world0_def unit_partial_def bare_unit_def)
qed

text \<open>
  A unit whose title extractor raises and whose severity extractor would return
  \<open>"HIGH"\<close>: the severity extractor is not invoked and the severity stays
  \<open>"MEDIUM"\<close>.
\<close>

theorem extractors_independent_counterexample:
  "rule_func unit_noisy example_event = Inr (PBool True)
   \<and> title_func unit_noisy = Some raises_key_error
   \<and> severity_func unit_noisy = Some severity_high
   \<and> severity_high example_event = Inr (PStr ''HIGH'')
   \<and> invoked (world_of (run_detection example_clock unit_noisy example_event world0))
       = [(''noisy'', Rule), (''noisy'', Title)]
   \<and> severity (verdict_of (run_detection example_clock unit_noisy example_event world0))
       = PStr ''MEDIUM''"
proof -
  have r: "rule_func unit_noisy example_event = Inr (PBool True)"
    by (simp add: unit_noisy_def bare_unit_def returns_true_def)
  from run_detection_matched[OF r, of example_clock world0] r show ?thesis
    by (simp add: verdict_of_def world_of_def world0_def after_calls_def populated_def
          extractors_def slots_def unit_noisy_def bare_unit_def raises_key_error_def
          severity_high_def initial_result_def)
qed

section \<open>Properties of run\<close>

lemma skip_selected: "(\<not> skip_by_filter rule_ids rid \<and> enabled det) = selected rule_ids (rid, det)"
  by (cases rule_ids) (auto simp: selected_def)

lemma run_units_verdicts:
  "\<exists>rs' w'. run_units clk reg rule_ids ev (rs, w) = Inr (rs @ rs', w')
     \<and> list_all2 (is_verdict clk) rs' (map (Pair ev) (filter (selected rule_ids) reg))"
proof (induction reg arbitrary: rs w)
  case Nil
  then show ?case by simp
next
  case (Cons p reg)
  obtain rid det where p: "p = (rid, det)" by (cases p) auto
  show ?case
  proof (cases "selected rule_ids (rid, det)")
    case False
    with Cons[of rs w] p show ?thesis
      using skip_selected[of rule_ids rid det] by auto
  next
    case True
    then have ns: "\<not> skip_by_filter rule_ids rid" and en: "enabled det"
      using skip_selected[of rule_ids rid det] by auto
    obtain r w1 where rd: "run_detection clk det ev w = Inr (r, w1)"
      using run_detection_returns by blast
    obtain rs' w' where ih: "run_units clk reg rule_ids ev (rs @ [r], w1) = Inr ((rs @ [r]) @ rs', w')"
      and l: "list_all2 (is_verdict clk) rs' (map (Pair ev) (filter (selected rule_ids) reg))"
      using Cons[of "rs @ [r]" w1] by blast
    have v: "is_verdict clk r (ev, rid, det)" using rd by (auto simp: is_verdict_def)
    from ih have "run_units clk (p # reg) rule_ids ev (rs, w) = Inr (rs @ (r # rs'), w')"
      using p ns en rd by simp
    moreover have "list_all2 (is_verdict clk) (r # rs')
        (map (Pair ev) (filter (selected rule_ids) (p # reg)))"
      using p True v l by simp
    ultimately show ?thesis by blast
  qed
qed

lemma run_events_verdicts:
  "\<exists>rs' w'. run_events clk self evs rule_ids (rs, w) = Inr (rs @ rs', w')
     \<and> list_all2 (is_verdict clk) rs' (selected_pairs (detections self) evs rule_ids)"
proof (induction evs arbitrary: rs w)
  case Nil
  then show ?case by (simp add: selected_pairs_def)
next
  case (Cons ev evs)
  obtain rs1 w1 where u: "run_units clk (detections self) rule_ids ev (rs, w) = Inr (rs @ rs1, w1)"
    and l1: "list_all2 (is_verdict clk) rs1 (map (Pair ev) (filter (selected rule_ids) (detections self)))"
    using run_units_verdicts by blast
  obtain rs2 w2 where e: "run_events clk self evs rule_ids (rs @ rs1, w1) = Inr ((rs @ rs1) @ rs2, w2)"
    and l2: "list_all2 (is_verdict clk) rs2 (selected_pairs (detections self) evs rule_ids)"
    using Cons[of "rs @ rs1" w1] by blast
  have "run_events clk self (ev # evs) rule_ids (rs, w) = Inr (rs @ (rs1 @ rs2), w2)"
    using u e by simp
  moreover have "list_all2 (is_verdict clk) (rs1 @ rs2)
      (selected_pairs (detections self) (ev # evs) rule_ids)"
    using l1 l2 by (simp add: selected_pairs_def list_all2_appendI)
  ultimately show ?case by blast
qed

lemma is_verdict_pair: "is_verdict clk r (e, k, d) \<Longrightarrow> pair_of r = (e, det_rule_id d)"
  using run_detection_ids by (fastforce simp: is_verdict_def pair_of_def)

lemma verdicts_pairs:
  "list_all2 (is_verdict clk) rs ps \<Longrightarrow> map pair_of rs = map (\<lambda>p. (fst p, det_rule_id (snd (snd p)))) ps"
proof (induction rs ps rule: list_all2_induct)
  case Nil
  then show ?case by simp
next
  case (Cons r rs p ps)
  then show ?case using is_verdict_pair[of clk r "fst p" "fst (snd p)" "snd (snd p)"] by simp
qed

lemma run_verdicts:
  "\<exists>rs w'. run clk self events rule_ids w = Inr (rs, w')
     \<and> list_all2 (is_verdict clk) rs (selected_pairs (detections self) (events_list events) rule_ids)"
  using run_events_verdicts[of clk self "events_list events" rule_ids "[]" w]
  by (simp add: run_def)

lemma run_units_empty_filter:
  "run_units clk reg (Some []) ev acc = run_units clk reg None ev acc"
  by (induction clk reg "Some ([]::string list)" ev acc rule: run_units.induct)
     (auto split: sum.splits)

lemma run_events_empty_filter:
  "run_events clk self evs (Some []) acc = run_events clk self evs None acc"
  by (induction evs arbitrary: acc) (auto simp: run_units_empty_filter split: sum.splits)

text \<open>
  Claim C4, as the code has it. For every list of events and every registry, \<open>run\<close>
  returns, and its verdicts are, one for one and in order, the verdicts of
  \<open>run_detection\<close> for the selected pairs: events in the outer loop, units in registry
  order in the inner loop, a unit being skipped when a non-empty \<open>rule_ids\<close> does not
  list its id or when it is not enabled. So for units \<open>[A, B]\<close> and events
  \<open>[e1, e2]\<close> the verdicts are those of \<open>(e1, A), (e1, B), (e2, A), (e2, B)\<close>.
\<close>

theorem run_order:
  "\<exists>rs w'. run clk self events rule_ids w = Inr (rs, w')
     \<and> list_all2 (is_verdict clk) rs
          (selected_pairs (detections self) (events_list events) rule_ids)
     \<and> map pair_of rs
          = map (\<lambda>p. (fst p, det_rule_id (snd (snd p))))
              (selected_pairs (detections self) (events_list events) rule_ids)"
  using run_verdicts[of clk self events rule_ids w] verdicts_pairs by blast

theorem run_order_witness:
  "map pair_of (verdicts_of (run example_clock engine_ab (ManyEvents [event1, event2]) None world0))
     = [(event1, ''A''), (event1, ''B''), (event2, ''A''), (event2, ''B'')]"
  using run_order[of example_clock engine_ab "ManyEvents [event1, event2]" None world0]
  by (auto simp: verdicts_of_def selected_pairs_def selected_def engine_ab_def unit_a_def
        unit_b_def bare_unit_def)

text \<open>
  With \<open>rule_ids\<close> supplied as the empty list, the units \<open>A\<close> and \<open>B\<close> are not
  in the filter and are evaluated all the same.
\<close>

theorem run_filter_supplied_counterexample:
  "''A'' \<notin> set ([] :: string list)
   \<and> map pair_of (verdicts_of (run example_clock engine_ab (OneEvent event1) (Some []) world0))
       = [(event1, ''A''), (event1, ''B'')]"
proof -
  obtain rs w' where
    r: "run example_clock engine_ab (OneEvent event1) (Some []) world0 = Inr (rs, w')"
    and l: "list_all2 (is_verdict example_clock) rs
              (selected_pairs (detections engine_ab) (events_list (OneEvent event1)) (Some []))"
    using run_verdicts by blast
  from verdicts_pairs[OF l] r show ?thesis
    by (simp add: verdicts_of_def selected_pairs_def selected_def engine_ab_def unit_a_def
          unit_b_def bare_unit_def)
qed

text \<open>
  Claim C9. With \<open>rule_ids\<close> supplied as the empty list, \<open>run\<close> does what it does
  without a filter: every enabled unit of the registry is evaluated against every
  event.
\<close>

theorem run_empty_filter:
  "run clk self events (Some []) w = run clk self events None w
   \<and> (\<exists>rs w'. run clk self events (Some []) w = Inr (rs, w')
        \<and> list_all2 (is_verdict clk) rs
             (concat (map (\<lambda>e. map (Pair e) (filter (\<lambda>p. enabled (snd p)) (detections self)))
                          (events_list events))))"
proof -
  have "selected (Some []) = (\<lambda>p. enabled (snd p))" by (auto simp: selected_def)
  then show ?thesis
    using run_verdicts[of clk self events "Some []" w]
    by (simp add: run_def run_events_empty_filter selected_pairs_def)
qed

theorem run_empty_filter_witness:
  "run example_clock engine_ab (OneEvent event1) (Some []) world0
     = run example_clock engine_ab (OneEvent event1) None world0
   \<and> length (verdicts_of (run example_clock engine_ab (OneEvent event1) (Some []) world0)) = 2"
proof -
  from run_empty_filter[of example_clock engine_ab "OneEvent event1" world0]
  obtain rs w' where
    e: "run example_clock engine_ab (OneEvent event1) (Some []) world0
          = run example_clock engine_ab (OneEvent event1) None world0"
    and r: "run example_clock engine_ab (OneEvent event1) (Some []) world0 = Inr (rs, w')"
    and l: "list_all2 (is_verdict example_clock) rs
             (concat (map (\<lambda>e. map (Pair e) (filter (\<lambda>p. enabled (snd p)) (detections engine_ab)))
                          (events_list (OneEvent event1))))"
    by blast
  from list_all2_lengthD[OF l] have "length rs = 2"
    by (simp add: engine_ab_def unit_a_def unit_b_def bare_unit_def)
  with r have "length (verdicts_of (run example_clock engine_ab (OneEvent event1) (Some []) world0)) = 2"
    by (simp add: verdicts_of_def)
  with e show ?thesis by blast
qed

section \<open>Properties of load_rule and load_rules\<close>









section \<open>Properties of LogSchema.validate\<close>

lemma missing_loop:
  "foldl (\<lambda>errors fname. if \<not> P fname then errors @ [g fname] else errors) acc fs
     = acc @ map g (filter (\<lambda>f. \<not> P f) fs)"
  by (induction fs arbitrary: acc) auto

lemma type_loop:
  "foldl (\<lambda>errors (fname, field_def).
             if P fname then (if \<not> Q (h fname) field_def then errors @ [g fname field_def (h fname)] else errors)
             else errors) acc fs
     = acc @ map (\<lambda>(n, d). g n d (h n)) (filter (\<lambda>(n, d). P n \<and> \<not> Q (h n) d) fs)"
  by (induction fs arbitrary: acc) (simp_all split: prod.splits)

lemma validate_split: "validate self ev = missing_errors self ev @ type_errors self ev"
  unfolding validate_def Let_def missing_errors_def type_errors_def
  by (simp add: missing_loop
        type_loop[where P = "\<lambda>n. dict_contains ev (KStr n)" and h = "\<lambda>n. dict_get ev (KStr n)"
          and Q = "\<lambda>v d. check_type v (field_type d)"
          and g = "\<lambda>n d v. wrong_type_error n (field_type d) v"])

lemma check_type_None: "check_type PNone t"
  by (simp add: check_type_def)

lemma filter_drop:
  "(\<And>x. x \<in> set xs \<Longrightarrow> P x \<Longrightarrow> Q x) \<Longrightarrow> filter P (filter Q xs) = filter P xs"
  by (induction xs) auto

text \<open>
  Claim C10. \<open>None\<close> passes the type check of every declared type. A field that is
  present in the event with the value \<open>None\<close> contributes no validation error:
  validating against the schema is the same as validating against the schema without
  that field. The missing-field error of a field is reported exactly when the field is
  required and its key is absent from the event.
\<close>

theorem validate_null_field:
  "check_type PNone t
   \<and> (map_of ev (KStr f) = Some PNone \<longrightarrow> validate self ev = validate (without_field self f) ev)
   \<and> (missing_error f \<in> set (validate self ev)
        \<longleftrightarrow> f \<in> set (required_fields self) \<and> \<not> dict_contains ev (KStr f))"
proof (intro conjI impI)
  show "check_type PNone t" by (rule check_type_None)
next
  assume a: "map_of ev (KStr f) = Some PNone"
  then have c: "dict_contains ev (KStr f)" and g: "dict_get ev (KStr f) = PNone"
    by (simp_all add: dict_contains_def dict_get_def)
  have "filter (\<lambda>x. \<not> dict_contains ev (KStr x)) (filter (\<lambda>g. g \<noteq> f) (required_fields self))
        = filter (\<lambda>x. \<not> dict_contains ev (KStr x)) (required_fields self)"
    using c by (intro filter_drop) auto
  then have "missing_errors (without_field self f) ev = missing_errors self ev"
    by (simp add: missing_errors_def without_field_def)
  moreover
  have "filter (\<lambda>(n, d). dict_contains ev (KStr n) \<and> \<not> check_type (dict_get ev (KStr n)) (field_type d))
          (filter (\<lambda>p. fst p \<noteq> f) (schema_fields self))
        = filter (\<lambda>(n, d). dict_contains ev (KStr n) \<and> \<not> check_type (dict_get ev (KStr n)) (field_type d))
          (schema_fields self)"
    using g by (intro filter_drop) (auto simp: check_type_None)
  then have "type_errors (without_field self f) ev = type_errors self ev"
    by (simp add: type_errors_def without_field_def)
  ultimately show "validate self ev = validate (without_field self f) ev"
    by (simp add: validate_split)
next
  have "missing_error f \<notin> set (type_errors self ev)"
    by (auto simp: type_errors_def missing_error_def wrong_type_error_def)
  moreover have "inj missing_error" by (simp add: inj_def missing_error_def)
  ultimately show "missing_error f \<in> set (validate self ev)
        \<longleftrightarrow> f \<in> set (required_fields self) \<and> \<not> dict_contains ev (KStr f)"
    by (auto simp: validate_split missing_errors_def inj_def)
qed

theorem validate_null_field_witness:
  "map_of [(KStr ''eventName'', PNone)] (KStr ''eventName'') = Some PNone
   \<and> validate example_schema [(KStr ''eventName'', PNone)]
       = validate (without_field example_schema ''eventName'') [(KStr ''eventName'', PNone)]
   \<and> validate example_schema [(KStr ''eventName'', PNone)] = []
   \<and> missing_error ''eventName'' \<in> set (validate example_schema [(KStr ''awsRegion'', PNone)])"
proof -
  have a: "map_of [(KStr ''eventName'', PNone)] (KStr ''eventName'') = Some PNone" by simp
  from validate_null_field[of "''string''" "[(KStr ''eventName'', PNone)]" "''eventName''" example_schema] a
  have b: "validate example_schema [(KStr ''eventName'', PNone)]
       = validate (without_field example_schema ''eventName'') [(KStr ''eventName'', PNone)]"
    by blast
  have c: "validate (without_field example_schema ''eventName'') [(KStr ''eventName'', PNone)] = []"
    by (simp add: validate_def without_field_def example_schema_def dict_contains_def)
  from validate_null_field[of "''string''" "[(KStr ''awsRegion'', PNone)]" "''eventName''" example_schema]
  have d: "missing_error ''eventName'' \<in> set (validate example_schema [(KStr ''awsRegion'', PNone)])"
    by (simp add: example_schema_def dict_contains_def)
  from a b c d show ?thesis by simp
qed

end
